theory Spec2Isabelle
  imports Main "HOL-Library.Word" "HOL-Library.Sublist"
begin

section \<open>The download script: data model\<close>

text \<open>
  The script \<^verbatim>\<open>scripts/download_usc_zip.py\<close> prepares two directories, reads a download
  page, resolves one link on it, streams the archive behind the link to a file and unpacks
  the file. Everything it does is an effect on the filesystem, the console or the network,
  so the model threads a \<open>world\<close> through every function and returns, next to the world,
  either the raised exception (\<open>Inl\<close>) or the returned value (\<open>Inr\<close>).

  The network, the HTML parser, Python's \<^verbatim>\<open>int\<close> on a header value and the ZIP decoder are
  library code outside the script. They are parameters of the model (the record \<open>env\<close>):
  every theorem holds for whatever they return.
\<close>

type_synonym byte = "8 word"
type_synonym bytes = "byte list"

text \<open>A path is the list of its components below the root; the root is \<open>[]\<close>.\<close>

type_synonym path = "string list"

text \<open>
  The exceptions that reach the caller. \<open>HTTPError\<close> is what \<^verbatim>\<open>raise_for_status\<close> raises
  (the specification's NetworkError), \<open>RuntimeError\<close> with its message is what the link
  resolver raises (the specification's LinkNotFoundError), \<open>BadZipFile\<close> is what
  \<^verbatim>\<open>zipfile\<close> raises for a bad ZIP file (the specification's ArchiveError);
  \<open>NotImplementedError\<close> and \<open>ZlibError\<close> are what it raises for an unsupported feature and
  for compressed data that cannot be inflated.
\<close>

datatype error =
    HTTPError nat
  | ConnectionError
  | RuntimeError string
  | ValueError
  | FileNotFoundError
  | FileExistsError
  | NotADirectoryError
  | IsADirectoryError
  | BadZipFile
  | NotImplementedError
  | ZlibError

datatype node = File bytes | Dir

type_synonym filesystem = "path \<rightharpoonup> node"

text \<open>An element of the parsed page: its name and its attribute dictionary.\<close>

record tag =
  tag_name :: string
  tag_attrs :: "string \<rightharpoonup> string"

text \<open>
  A response: the status code, the decoded body, the headers (keyed by lower-case name, as
  the case-insensitive dictionary of \<^verbatim>\<open>requests\<close> looks them up) and what
  \<^verbatim>\<open>iter_content\<close> yields: chunks, or an exception raised by the transport in the middle
  of the transfer.
\<close>

record response =
  status_code :: nat
  resp_text :: string
  headers :: "string \<rightharpoonup> string"
  iter_content :: "(error + bytes) list"

text \<open>The progress bar: the total it was created with and the count it has reached.\<close>

record tqdm =
  pbar_total :: int
  pbar_n :: int

record world =
  files :: filesystem
  stdout :: "string list"
  open_files :: "path list"
  pbar :: "tqdm option"

text \<open>
  What \<^verbatim>\<open>zipfile\<close> finds when it comes to a member of an archive. The members are checked
  one by one while they are extracted, not when the archive is opened: a member gives its
  contents, or raises when it is opened (a bad header, an unsupported compression method),
  or raises while it is copied (a bad checksum, data that cannot be inflated) after the
  target has been opened and some bytes have been written.
\<close>

datatype member_data =
    Content bytes
  | FailsAtOpen error
  | FailsAfter bytes error

text \<open>
  The environment. The decoder \<open>zip_read\<close> is what opening the archive gives: the exception
  that \<^verbatim>\<open>ZipFile(path)\<close> raises for a file that it rejects at once, or the members in the
  archive's order, each with its name and what reading it will give.
\<close>

record env =
  script_dir :: path
  http_get :: "string \<Rightarrow> error + response"
  html_parser :: "string \<Rightarrow> tag list"
  py_int :: "string \<Rightarrow> int option"
  zip_read :: "bytes \<Rightarrow> error + (string \<times> member_data) list"

type_synonym 'a outcome = "(error + 'a) \<times> world"

section \<open>Constants of the script\<close>

text \<open>
  \<^verbatim>\<open>RAW_DIR\<close> and \<^verbatim>\<open>XML_DIR\<close> are \<^verbatim>\<open>abspath(join(dirname(__file__), '../data/...'))\<close>:
  the normalised path drops the last component of the script's directory.
\<close>

definition RAW_DIR :: "env \<Rightarrow> path" where
  "RAW_DIR e = butlast (script_dir e) @ [''data'', ''raw'']"

definition XML_DIR :: "env \<Rightarrow> path" where
  "XML_DIR e = butlast (script_dir e) @ [''data'', ''xml'']"

definition ZIP_OUTPUT_PATH :: "env \<Rightarrow> path" where
  "ZIP_OUTPUT_PATH e = RAW_DIR e @ [''usc.zip'']"

definition DOWNLOAD_PAGE_URL :: string where
  "DOWNLOAD_PAGE_URL = ''https://uscode.house.gov/download/download.shtml''"

definition LINK_TITLE :: string where
  "LINK_TITLE = ''All USC Titles in XML''"

definition ORIGIN :: string where
  "ORIGIN = ''https://uscode.house.gov''"

definition NOT_FOUND_NOTICE :: string where
  "NOT_FOUND_NOTICE =
     ''Could not find <a> tag with title=\"All USC Titles in XML\". Dumping a snippet of HTML:''"

definition NOT_FOUND_MESSAGE :: string where
  "NOT_FOUND_MESSAGE = ''Could not find XML ZIP link on download page''"

section \<open>Console and filesystem primitives\<close>

definition print :: "string \<Rightarrow> world \<Rightarrow> world" where
  "print s w = w\<lparr>stdout := stdout w @ [s]\<rparr>"

text \<open>How a path is printed: \<^verbatim>\<open>/a/b\<close>.\<close>

definition path_str :: "path \<Rightarrow> string" where
  "path_str p = (if p = [] then ''/'' else concat (map (\<lambda>c. CHR ''/'' # c) p))"

definition path_exists :: "filesystem \<Rightarrow> path \<Rightarrow> bool" where
  "path_exists fs p = (p = [] \<or> fs p \<noteq> None)"

definition isdir :: "filesystem \<Rightarrow> path \<Rightarrow> bool" where
  "isdir fs p = (p = [] \<or> fs p = Some Dir)"

text \<open>
  \<^verbatim>\<open>os.mkdir\<close>: the parent has to exist and to be a directory, and the path itself must be
  free.
\<close>

definition mkdir :: "filesystem \<Rightarrow> path \<Rightarrow> error + filesystem" where
  "mkdir fs p =
     (if p = [] then Inl FileExistsError
      else if \<not> path_exists fs (butlast p) then Inl FileNotFoundError
      else if \<not> isdir fs (butlast p) then Inl NotADirectoryError
      else if path_exists fs p then Inl FileExistsError
      else Inr (fs(p \<mapsto> Dir)))"

text \<open>
  \<^verbatim>\<open>os.makedirs(name, exist_ok)\<close>: when the parent is missing it is made first (a
  \<^verbatim>\<open>FileExistsError\<close> of that recursive call is swallowed), then the leaf is made; an error
  of the leaf's \<^verbatim>\<open>mkdir\<close> is swallowed when \<open>exist_ok\<close> is set and the path is a directory.
  The filesystem reached is returned also when an exception leaves the function.
\<close>

function makedirs :: "filesystem \<Rightarrow> path \<Rightarrow> bool \<Rightarrow> error option \<times> filesystem" where
  "makedirs fs p exist_ok =
     (case (if p \<noteq> [] \<and> \<not> path_exists fs (butlast p)
            then makedirs fs (butlast p) exist_ok else (None, fs)) of
        (e1, fs1) \<Rightarrow>
          if e1 \<noteq> None \<and> e1 \<noteq> Some FileExistsError then (e1, fs1)
          else (case mkdir fs1 p of
                  Inr fs2 \<Rightarrow> (None, fs2)
                | Inl e \<Rightarrow> if exist_ok \<and> isdir fs1 p then (None, fs1) else (Some e, fs1)))"
  by pat_completeness auto
termination
  by (relation "measure (\<lambda>(fs, p, ok). length p)") auto

declare makedirs.simps [simp del]

text \<open>
  \<^verbatim>\<open>open(path, 'wb')\<close> on the filesystem: the file is created or truncated.
\<close>

definition open_wb :: "filesystem \<Rightarrow> path \<Rightarrow> error + filesystem" where
  "open_wb fs p =
     (if \<not> path_exists fs (butlast p) then Inl FileNotFoundError
      else if \<not> isdir fs (butlast p) then Inl NotADirectoryError
      else if isdir fs p then Inl IsADirectoryError
      else Inr (fs(p \<mapsto> File [])))"

definition file_bytes :: "filesystem \<Rightarrow> path \<Rightarrow> bytes" where
  "file_bytes fs p = (case fs p of Some (File b) \<Rightarrow> b | _ \<Rightarrow> [])"

text \<open>\<^verbatim>\<open>f.write(chunk)\<close> appends to the open file.\<close>

definition fwrite :: "path \<Rightarrow> bytes \<Rightarrow> world \<Rightarrow> world" where
  "fwrite p chunk w = w\<lparr>files := (files w)(p \<mapsto> File (file_bytes (files w) p @ chunk))\<rparr>"

definition fclose :: "path \<Rightarrow> world \<Rightarrow> world" where
  "fclose p w = w\<lparr>open_files := remove1 p (open_files w)\<rparr>"

definition tqdm_update :: "int \<Rightarrow> world \<Rightarrow> world" where
  "tqdm_update k w = w\<lparr>pbar := map_option (\<lambda>b. b\<lparr>pbar_n := pbar_n b + k\<rparr>) (pbar w)\<rparr>"


section \<open>The four steps and the entry point\<close>

definition ensure_dirs :: "env \<Rightarrow> world \<Rightarrow> unit outcome" where
  "ensure_dirs e w =
     (case makedirs (files w) (RAW_DIR e) True of
        (Some err, fs1) \<Rightarrow> (Inl err, w\<lparr>files := fs1\<rparr>)
      | (None, fs1) \<Rightarrow>
          (case makedirs fs1 (XML_DIR e) True of
             (Some err, fs2) \<Rightarrow> (Inl err, w\<lparr>files := fs2\<rparr>)
           | (None, fs2) \<Rightarrow> (Inr (), w\<lparr>files := fs2\<rparr>)))"

text \<open>Two calls in succession; an exception of the first call ends the run.\<close>

definition ensure_dirs_twice :: "env \<Rightarrow> world \<Rightarrow> unit outcome" where
  "ensure_dirs_twice e w =
     (case ensure_dirs e w of
        (Inl err, w1) \<Rightarrow> (Inl err, w1)
      | (Inr _, w1) \<Rightarrow> ensure_dirs e w1)"

text \<open>\<^verbatim>\<open>resp.raise_for_status()\<close> raises for the statuses 400 to 599.\<close>

definition raise_for_status :: "response \<Rightarrow> error + unit" where
  "raise_for_status r =
     (if 400 \<le> status_code r \<and> status_code r < 600
      then Inl (HTTPError (status_code r)) else Inr ())"

text \<open>
  \<^verbatim>\<open>soup.find('a', title=...)\<close>: the first element, in document order, that is an anchor
  and whose title attribute is the given string.
\<close>

definition soup_find :: "tag list \<Rightarrow> string \<Rightarrow> string \<Rightarrow> tag option" where
  "soup_find soup nm title =
     List.find (\<lambda>t. tag_name t = nm \<and> tag_attrs t ''title'' = Some title) soup"

definition get_bulk_xml_url :: "env \<Rightarrow> world \<Rightarrow> string outcome" where
  "get_bulk_xml_url e w =
     (let w1 = print ''Fetching download page...'' w in
      case http_get e DOWNLOAD_PAGE_URL of
        Inl err \<Rightarrow> (Inl err, w1)
      | Inr resp \<Rightarrow>
          (case raise_for_status resp of
             Inl err \<Rightarrow> (Inl err, w1)
           | Inr _ \<Rightarrow>
               (let link = soup_find (html_parser e (resp_text resp)) ''a'' LINK_TITLE;
                    not_found = (Inl (RuntimeError NOT_FOUND_MESSAGE),
                                 print (take 2000 (resp_text resp)) (print NOT_FOUND_NOTICE w1))
                in case link of
                     None \<Rightarrow> not_found
                   | Some t \<Rightarrow>
                       (case tag_attrs t ''href'' of
                          None \<Rightarrow> not_found
                        | Some href \<Rightarrow>
                            if href = [] then not_found
                            else (let url = (if prefix ''http'' href then href
                                             else ORIGIN @ href)
                                  in (Inr url,
                                      print (''Found bulk XML ZIP URL: '' @ url) w1))))))"

text \<open>
  The loop over \<^verbatim>\<open>r.iter_content(chunk_size=8192)\<close>: a non-empty chunk is written and
  counted, an empty one is skipped, an exception of the transport ends the loop.
\<close>

fun write_chunks :: "(error + bytes) list \<Rightarrow> path \<Rightarrow> world \<Rightarrow> unit outcome" where
  "write_chunks [] p w = (Inr (), w)"
| "write_chunks (Inl err # rest) p w = (Inl err, w)"
| "write_chunks (Inr chunk # rest) p w =
     (if chunk \<noteq> []
      then write_chunks rest p (tqdm_update (int (length chunk)) (fwrite p chunk w))
      else write_chunks rest p w)"

text \<open>\<^verbatim>\<open>int(r.headers.get('content-length', 0))\<close>; \<open>None\<close> is the \<^verbatim>\<open>ValueError\<close> of \<^verbatim>\<open>int\<close>.\<close>

definition response_total :: "env \<Rightarrow> response \<Rightarrow> int option" where
  "response_total e r =
     (case headers r ''content-length'' of None \<Rightarrow> Some 0 | Some v \<Rightarrow> py_int e v)"

text \<open>
  The downloader. The two \<^verbatim>\<open>with\<close> statements are written out: the file is opened (created
  or truncated) and its handle recorded once the status and the total are known, the bar is
  created, the loop runs, and on the way out, with or without an exception from the loop,
  the handle is closed. The connection of the response, which the outer \<^verbatim>\<open>with\<close> releases,
  is not tracked.
\<close>

definition download_file :: "env \<Rightarrow> string \<Rightarrow> path \<Rightarrow> world \<Rightarrow> unit outcome" where
  "download_file e url output_path w =
     (let w1 = print (''Downloading '' @ url @ '' to '' @ path_str output_path @ ''...'') w in
      case http_get e url of
        Inl err \<Rightarrow> (Inl err, w1)
      | Inr r \<Rightarrow>
          (case raise_for_status r of
             Inl err \<Rightarrow> (Inl err, w1)
           | Inr _ \<Rightarrow>
               (case response_total e r of
                  None \<Rightarrow> (Inl ValueError, w1)
                | Some tot \<Rightarrow>
                    (case open_wb (files w1) output_path of
                       Inl err \<Rightarrow> (Inl err, w1)
                     | Inr fs \<Rightarrow>
                         (let w2 = w1\<lparr>files := fs,
                                       open_files := output_path # open_files w1,
                                       pbar := Some \<lparr>pbar_total = tot, pbar_n = 0\<rparr>\<rparr>
                          in case write_chunks (iter_content r) output_path w2 of
                               (res, w3) \<Rightarrow>
                                 (let w4 = fclose output_path w3
                                  in case res of
                                       Inl err \<Rightarrow> (Inl err, w4)
                                     | Inr _ \<Rightarrow>
                                         (Inr (), print ''Download completed successfully.'' w4)))))))"

text \<open>\<^verbatim>\<open>str.split(sep)\<close> for a one-character separator.\<close>

fun split_sep :: "char \<Rightarrow> string \<Rightarrow> string list" where
  "split_sep c [] = [[]]"
| "split_sep c (x # xs) =
     (if x = c then [] # split_sep c xs
      else (case split_sep c xs of
              y # ys \<Rightarrow> (x # y) # ys
            | [] \<Rightarrow> [[x]]))"

text \<open>
  The components under which \<^verbatim>\<open>zipfile\<close> stores a member: the member's name split at the
  slashes, without empty components, \<^verbatim>\<open>.\<close> and \<^verbatim>\<open>..\<close>.
\<close>

definition arcname_parts :: "string \<Rightarrow> path" where
  "arcname_parts filename =
     filter (\<lambda>x. x \<noteq> [] \<and> x \<noteq> ''.'' \<and> x \<noteq> ''..'') (split_sep CHR ''/'' filename)"

definition is_dir :: "string \<Rightarrow> bool" where
  "is_dir filename = (filename \<noteq> [] \<and> last filename = CHR ''/'')"

text \<open>
  The extraction of one member: the directories above the target are made when the
  parent is missing; a directory member makes its directory unless it is there; a file
  member is opened in the archive, then the target is opened (created or truncated) and the
  member is copied into it. A member that raises when it is opened leaves the target
  untouched; one that raises while it is copied leaves the bytes written so far.
\<close>

definition extract_member ::
  "filesystem \<Rightarrow> path \<Rightarrow> string \<times> member_data \<Rightarrow> error option \<times> filesystem" where
  "extract_member fs out_dir m =
     (let targetpath = out_dir @ arcname_parts (fst m);
          upperdirs = butlast targetpath
      in case (if \<not> path_exists fs upperdirs then makedirs fs upperdirs False
               else (None, fs)) of
           (Some err, fs1) \<Rightarrow> (Some err, fs1)
         | (None, fs1) \<Rightarrow>
             if is_dir (fst m)
             then (if \<not> isdir fs1 targetpath
                   then (case mkdir fs1 targetpath of
                           Inl err \<Rightarrow> (Some err, fs1)
                         | Inr fs2 \<Rightarrow> (None, fs2))
                   else (None, fs1))
             else (case snd m of
                     FailsAtOpen err \<Rightarrow> (Some err, fs1)
                   | Content content \<Rightarrow>
                       (case open_wb fs1 targetpath of
                          Inl err \<Rightarrow> (Some err, fs1)
                        | Inr fs2 \<Rightarrow> (None, fs2(targetpath \<mapsto> File content)))
                   | FailsAfter written err \<Rightarrow>
                       (case open_wb fs1 targetpath of
                          Inl err' \<Rightarrow> (Some err', fs1)
                        | Inr fs2 \<Rightarrow> (Some err, fs2(targetpath \<mapsto> File written)))))"

fun extractall ::
  "filesystem \<Rightarrow> path \<Rightarrow> (string \<times> member_data) list \<Rightarrow> error option \<times> filesystem"
  where
  "extractall fs out_dir [] = (None, fs)"
| "extractall fs out_dir (m # ms) =
     (case extract_member fs out_dir m of
        (Some err, fs1) \<Rightarrow> (Some err, fs1)
      | (None, fs1) \<Rightarrow> extractall fs1 out_dir ms)"

text \<open>
  The extractor: \<^verbatim>\<open>ZipFile(zip_path, 'r')\<close> reads the file at the path and raises what
  the decoder raises for a file that it rejects at once; \<^verbatim>\<open>extractall\<close> extracts the members
  in order and stops at the first exception, of the filesystem or of a member, leaving what
  has been written. The handle of the archive, which the \<^verbatim>\<open>with\<close> releases, is not
  tracked.
\<close>

definition unzip_to_xml_dir :: "env \<Rightarrow> path \<Rightarrow> path \<Rightarrow> world \<Rightarrow> unit outcome" where
  "unzip_to_xml_dir e zip_path out_dir w =
     (let w1 = print (''Unzipping '' @ path_str zip_path @ '' to '' @ path_str out_dir @ ''...'') w in
      case (if zip_path = [] then Some Dir else files w1 zip_path) of
        None \<Rightarrow> (Inl FileNotFoundError, w1)
      | Some Dir \<Rightarrow> (Inl IsADirectoryError, w1)
      | Some (File content) \<Rightarrow>
          (case zip_read e content of
             Inl err \<Rightarrow> (Inl err, w1)
           | Inr members \<Rightarrow>
               (case extractall (files w1) out_dir members of
                  (Some err, fs1) \<Rightarrow> (Inl err, w1\<lparr>files := fs1\<rparr>)
                | (None, fs1) \<Rightarrow> (Inr (), print ''Unzip complete.'' (w1\<lparr>files := fs1\<rparr>)))))"

definition main :: "env \<Rightarrow> world \<Rightarrow> unit outcome" where
  "main e w =
     (case ensure_dirs e w of
        (Inl err, w1) \<Rightarrow> (Inl err, w1)
      | (Inr _, w1) \<Rightarrow>
          (case get_bulk_xml_url e w1 of
             (Inl err, w2) \<Rightarrow> (Inl err, w2)
           | (Inr url, w2) \<Rightarrow>
               (case download_file e url (ZIP_OUTPUT_PATH e) w2 of
                  (Inl err, w3) \<Rightarrow> (Inl err, w3)
                | (Inr _, w3) \<Rightarrow>
                    (case unzip_to_xml_dir e (ZIP_OUTPUT_PATH e) (XML_DIR e) w3 of
                       (Inl err, w4) \<Rightarrow> (Inl err, w4)
                     | (Inr _, w4) \<Rightarrow>
                         (Inr (), print ''USC XML download and extraction complete.'' w4)))))"

section \<open>Well-formed archives and destinations\<close>

text \<open>
  The conditions under which the extraction of an archive is stated. A member's name is
  normal when it is the relative path that the extractor derives from it: components
  joined by slashes, none of them empty, \<^verbatim>\<open>.\<close> or \<^verbatim>\<open>..\<close>, with a closing slash exactly for
  a directory member. Two members clash when the path of a file member is the path of the
  other member or lies above it. A destination is ready for a member when nothing but
  directories lies on the way to the member's target and the target itself is not occupied
  by a node of the other kind.
\<close>

fun join_path :: "path \<Rightarrow> string" where
  "join_path [] = []"
| "join_path [c] = c"
| "join_path (c # d # cs) = c @ CHR ''/'' # join_path (d # cs)"

definition normal_name :: "string \<Rightarrow> bool" where
  "normal_name n =
     (arcname_parts n \<noteq> []
      \<and> n = join_path (arcname_parts n) @ (if is_dir n then ''/'' else []))"

definition target :: "path \<Rightarrow> string \<times> 'a \<Rightarrow> path" where
  "target out_dir m = out_dir @ arcname_parts (fst m)"

definition extracted :: "string \<times> bytes \<Rightarrow> node" where
  "extracted m = (if is_dir (fst m) then Dir else File (snd m))"

definition no_clash :: "string \<times> 'a \<Rightarrow> string \<times> 'b \<Rightarrow> bool" where
  "no_clash a b =
     (is_dir (fst a) \<or> \<not> prefix (arcname_parts (fst a)) (arcname_parts (fst b)))"

fun conflict_free :: "(string \<times> 'a) list \<Rightarrow> bool" where
  "conflict_free [] = True"
| "conflict_free (m # ms) =
     ((\<forall>m' \<in> set ms. no_clash m m' \<and> no_clash m' m) \<and> conflict_free ms)"

definition well_formed :: "(string \<times> 'a) list \<Rightarrow> bool" where
  "well_formed ms = ((\<forall>m \<in> set ms. normal_name (fst m)) \<and> conflict_free ms)"

text \<open>An archive all of whose members can be read, given by their names and contents.\<close>

definition readable :: "(string \<times> bytes) list \<Rightarrow> (string \<times> member_data) list" where
  "readable ms = map (\<lambda>m. (fst m, Content (snd m))) ms"

text \<open>
  The way to a directory is clear when every path from the root down to it is free or a
  directory: no regular file is in the way.
\<close>

definition free_or_dir :: "filesystem \<Rightarrow> path \<Rightarrow> bool" where
  "free_or_dir fs p = (fs p = None \<or> fs p = Some Dir)"

definition clear_way :: "filesystem \<Rightarrow> path \<Rightarrow> bool" where
  "clear_way fs p = (\<forall>q \<in> set (prefixes p). q \<noteq> [] \<longrightarrow> free_or_dir fs q)"

definition dest_ready :: "filesystem \<Rightarrow> path \<Rightarrow> string \<times> 'a \<Rightarrow> bool" where
  "dest_ready fs out_dir m =
     ((\<forall>q \<in> set (prefixes (arcname_parts (fst m))).
         q \<noteq> [] \<and> q \<noteq> arcname_parts (fst m) \<longrightarrow> free_or_dir fs (out_dir @ q))
      \<and> (if is_dir (fst m) then free_or_dir fs (target out_dir m)
         else fs (target out_dir m) \<noteq> Some Dir))"

section \<open>Sample inputs\<close>

text \<open>
  Concrete environments and worlds on which the theorems below are run: a network that
  answers every request with one response, a parser that returns a given list of elements,
  a decoder that returns a given answer.
\<close>

definition sample_response ::
  "nat \<Rightarrow> string \<Rightarrow> (string \<rightharpoonup> string) \<Rightarrow> (error + bytes) list \<Rightarrow> response" where
  "sample_response st body hs chunks =
     \<lparr>status_code = st, resp_text = body, headers = hs, iter_content = chunks\<rparr>"

definition sample_env ::
  "response \<Rightarrow> tag list \<Rightarrow> error + (string \<times> member_data) list \<Rightarrow> env" where
  "sample_env r soup members =
     \<lparr>script_dir = [''repo'', ''scripts''], http_get = (\<lambda>_. Inr r), html_parser = (\<lambda>_. soup),
      py_int = (\<lambda>s. if s = ''5'' then Some 5 else None), zip_read = (\<lambda>_. members)\<rparr>"

definition anchor :: "string option \<Rightarrow> tag" where
  "anchor href =
     \<lparr>tag_name = ''a'',
      tag_attrs = (\<lambda>k. if k = ''title'' then Some LINK_TITLE
                       else if k = ''href'' then href else None)\<rparr>"

definition sample_world :: "filesystem \<Rightarrow> world" where
  "sample_world fs = \<lparr>files = fs, stdout = [], open_files = [], pbar = None\<rparr>"

text \<open>The directories of a run, and a run that finds the link and downloads three bytes.\<close>

definition sample_dirs :: filesystem where
  "sample_dirs = [[''repo''] \<mapsto> Dir, [''repo'', ''data''] \<mapsto> Dir,
                  [''repo'', ''data'', ''raw''] \<mapsto> Dir, [''repo'', ''data'', ''xml''] \<mapsto> Dir]"

definition sample_run_env :: "error + (string \<times> member_data) list \<Rightarrow> env" where
  "sample_run_env members =
     sample_env (sample_response 200 ''<html>page</html>'' Map.empty [Inr [1, 2], Inr [3]])
       [anchor (Some ''/files/usc.zip'')] members"

text \<open>An archive with the members \<^verbatim>\<open>a.txt\<close> and \<^verbatim>\<open>sub/b.txt\<close>, and a filesystem that holds it.\<close>

definition sample_archive :: "(string \<times> bytes) list" where
  "sample_archive = [(''a.txt'', [1, 2]), (''sub/b.txt'', [3])]"

definition sample_zip_fs :: filesystem where
  "sample_zip_fs = sample_dirs([''repo'', ''data'', ''raw'', ''usc.zip''] \<mapsto> File [80, 75])"

text \<open>
  A filesystem in which a regular file is where the directory \<^verbatim>\<open>/repo\<close> has to be; an archive
  whose second member has a bad checksum; an archive whose member cannot be inflated.
\<close>

definition blocked_fs :: filesystem where
  "blocked_fs = [[''repo''] \<mapsto> File []]"



section \<open>The link resolver\<close>

text \<open>
  C1, as amended. When the page is fetched with a status that is no error, the first anchor
  with the expected title is found and its href is a non-empty string, the resolver returns
  exactly one string: the href itself when it begins with \<^verbatim>\<open>http\<close>, and otherwise
  \<^verbatim>\<open>https://uscode.house.gov\<close> followed by the href. It prints the notice of the fetch and
  the URL it found, and changes nothing else.
\<close>

theorem resolver_returns_absolute_url:
  assumes "http_get e DOWNLOAD_PAGE_URL = Inr resp"
    and "raise_for_status resp = Inr ()"
    and "soup_find (html_parser e (resp_text resp)) ''a'' LINK_TITLE = Some link"
    and "tag_attrs link ''href'' = Some h"
    and "h \<noteq> []"
  shows "get_bulk_xml_url e w =
           (Inr (if prefix ''http'' h then h else ORIGIN @ h),
            print (''Found bulk XML ZIP URL: '' @ (if prefix ''http'' h then h else ORIGIN @ h))
              (print ''Fetching download page...'' w))"
  using assms by (simp add: get_bulk_xml_url_def Let_def)

text \<open>
  A relative href is prefixed with the origin and an absolute one is returned as it is.
\<close>

theorem resolver_returns_absolute_url_witness:
  "fst (get_bulk_xml_url
         (sample_env (sample_response 200 ''<html>page</html>'' Map.empty [])
            [anchor (Some ''/files/usc.zip'')] (Inl BadZipFile))
         (sample_world Map.empty)) = Inr ''https://uscode.house.gov/files/usc.zip''
   \<and> fst (get_bulk_xml_url
         (sample_env (sample_response 200 ''<html>page</html>'' Map.empty [])
            [anchor (Some ''http://x/usc.zip'')] (Inl BadZipFile))
         (sample_world Map.empty)) = Inr ''http://x/usc.zip''"
  using resolver_returns_absolute_url [of
      "sample_env (sample_response 200 ''<html>page</html>'' Map.empty [])
         [anchor (Some ''/files/usc.zip'')] (Inl BadZipFile)"
      "sample_response 200 ''<html>page</html>'' Map.empty []"
      "anchor (Some ''/files/usc.zip'')" "''/files/usc.zip''" "sample_world Map.empty"]
    resolver_returns_absolute_url [of
      "sample_env (sample_response 200 ''<html>page</html>'' Map.empty [])
         [anchor (Some ''http://x/usc.zip'')] (Inl BadZipFile)"
      "sample_response 200 ''<html>page</html>'' Map.empty []"
      "anchor (Some ''http://x/usc.zip'')" "''http://x/usc.zip''" "sample_world Map.empty"]
  by (simp add: sample_env_def sample_response_def anchor_def raise_for_status_def
        soup_find_def ORIGIN_def)

text \<open>
  C1 as it is stated fails for an anchor with the expected title whose href is the empty
  string: the href does not begin with \<^verbatim>\<open>http\<close>, yet the resolver does not return the
  origin followed by the href. It raises.
\<close>

theorem empty_href_not_resolved_counterexample:
  "soup_find
     (html_parser
        (sample_env (sample_response 200 ''<html>page</html>'' Map.empty [])
           [anchor (Some [])] (Inl BadZipFile))
        (resp_text (sample_response 200 ''<html>page</html>'' Map.empty [])))
     ''a'' LINK_TITLE = Some (anchor (Some []))
   \<and> tag_attrs (anchor (Some [])) ''href'' = Some []
   \<and> \<not> prefix ''http'' []
   \<and> fst (get_bulk_xml_url
         (sample_env (sample_response 200 ''<html>page</html>'' Map.empty [])
            [anchor (Some [])] (Inl BadZipFile))
         (sample_world Map.empty)) \<noteq> Inr (ORIGIN @ [])
   \<and> fst (get_bulk_xml_url
         (sample_env (sample_response 200 ''<html>page</html>'' Map.empty [])
            [anchor (Some [])] (Inl BadZipFile))
         (sample_world Map.empty)) = Inl (RuntimeError NOT_FOUND_MESSAGE)"
  by (simp add: get_bulk_xml_url_def sample_env_def sample_response_def anchor_def
        raise_for_status_def soup_find_def Let_def)

text \<open>
  C3. When the page is fetched and no anchor has the expected title, or the anchor found has
  no href, the resolver raises the \<open>RuntimeError\<close> that the specification calls
  LinkNotFoundError. What it prints before raising ends with the snippet of the body: the
  first 2000 characters, never more.
\<close>

theorem resolver_link_not_found:
  assumes "http_get e DOWNLOAD_PAGE_URL = Inr resp"
    and "raise_for_status resp = Inr ()"
    and "soup_find (html_parser e (resp_text resp)) ''a'' LINK_TITLE = None
         \<or> (\<exists>link. soup_find (html_parser e (resp_text resp)) ''a'' LINK_TITLE = Some link
                    \<and> tag_attrs link ''href'' = None)"
  shows "get_bulk_xml_url e w =
           (Inl (RuntimeError NOT_FOUND_MESSAGE),
            w\<lparr>stdout := stdout w @ [''Fetching download page...'', NOT_FOUND_NOTICE,
                                   take 2000 (resp_text resp)]\<rparr>)
         \<and> length (take 2000 (resp_text resp)) \<le> 2000
         \<and> prefix (take 2000 (resp_text resp)) (resp_text resp)"
  using assms by (auto simp: get_bulk_xml_url_def Let_def print_def take_is_prefix)

theorem resolver_link_not_found_witness:
  "get_bulk_xml_url (sample_env (sample_response 200 (replicate 2001 CHR ''x'') Map.empty []) [] (Inl BadZipFile))
       (sample_world Map.empty) =
     (Inl (RuntimeError NOT_FOUND_MESSAGE),
      sample_world Map.empty
        \<lparr>stdout := [''Fetching download page...'', NOT_FOUND_NOTICE, replicate 2000 CHR ''x'']\<rparr>)
   \<and> fst (get_bulk_xml_url
            (sample_env (sample_response 200 ''<a title=...>'' Map.empty []) [anchor None] (Inl BadZipFile))
            (sample_world Map.empty)) = Inl (RuntimeError NOT_FOUND_MESSAGE)"
  using resolver_link_not_found [of
      "sample_env (sample_response 200 (replicate 2001 CHR ''x'') Map.empty []) [] (Inl BadZipFile)"
      "sample_response 200 (replicate 2001 CHR ''x'') Map.empty []" "sample_world Map.empty"]
    resolver_link_not_found [of
      "sample_env (sample_response 200 ''<a title=...>'' Map.empty []) [anchor None] (Inl BadZipFile)"
      "sample_response 200 ''<a title=...>'' Map.empty []" "sample_world Map.empty"]
  by (simp add: sample_env_def sample_response_def sample_world_def anchor_def
        raise_for_status_def soup_find_def)

text \<open>
  C10. When the href of the anchor found is present and empty, the resolver raises the same
  error as for a missing href, with the same output; it does not return the origin.
\<close>

theorem resolver_empty_href:
  assumes "http_get e DOWNLOAD_PAGE_URL = Inr resp"
    and "raise_for_status resp = Inr ()"
    and "soup_find (html_parser e (resp_text resp)) ''a'' LINK_TITLE = Some link"
    and "tag_attrs link ''href'' = Some []"
  shows "get_bulk_xml_url e w =
           (Inl (RuntimeError NOT_FOUND_MESSAGE),
            w\<lparr>stdout := stdout w @ [''Fetching download page...'', NOT_FOUND_NOTICE,
                                   take 2000 (resp_text resp)]\<rparr>)
         \<and> fst (get_bulk_xml_url e w) \<noteq> Inr ORIGIN"
  using assms by (simp add: get_bulk_xml_url_def Let_def print_def)

theorem resolver_empty_href_witness:
  "fst (get_bulk_xml_url
          (sample_env (sample_response 200 ''<a title=... href=>'' Map.empty []) [anchor (Some [])] (Inl BadZipFile))
          (sample_world Map.empty)) = Inl (RuntimeError NOT_FOUND_MESSAGE)"
  using resolver_empty_href [of
      "sample_env (sample_response 200 ''<a title=... href=>'' Map.empty []) [anchor (Some [])] (Inl BadZipFile)"
      "sample_response 200 ''<a title=... href=>'' Map.empty []" "anchor (Some [])"
      "sample_world Map.empty"]
  by (simp add: sample_env_def sample_response_def anchor_def raise_for_status_def soup_find_def)

section \<open>HTTP errors\<close>

text \<open>
  C4, as amended. When a response has an error status, 400 to 599, the step that received it
  raises \<open>HTTPError\<close> (the specification's NetworkError) and has done nothing but print its
  first line; and the run ends there: what the entry point returns is that error in the world
  that the failing step left, so that no later step has run and no request is repeated.
  This holds for the fetch of the page and for the download of the archive.
\<close>

theorem http_error_status_aborts:
  assumes "400 \<le> status_code r" and "status_code r < 600"
  shows "(http_get e DOWNLOAD_PAGE_URL = Inr r \<longrightarrow>
            get_bulk_xml_url e w =
              (Inl (HTTPError (status_code r)), print ''Fetching download page...'' w)
            \<and> (\<forall>w0. ensure_dirs e w0 = (Inr (), w) \<longrightarrow>
                  main e w0 =
                    (Inl (HTTPError (status_code r)), print ''Fetching download page...'' w)))
       \<and> (http_get e url = Inr r \<longrightarrow>
            download_file e url p w =
              (Inl (HTTPError (status_code r)),
               print (''Downloading '' @ url @ '' to '' @ path_str p @ ''...'') w)
            \<and> (\<forall>w0 w1. ensure_dirs e w0 = (Inr (), w1) \<and> get_bulk_xml_url e w1 = (Inr url, w)
                  \<longrightarrow> main e w0 =
                    (Inl (HTTPError (status_code r)),
                     print (''Downloading '' @ url @ '' to '' @ path_str (ZIP_OUTPUT_PATH e)
                            @ ''...'') w)))"
proof -
  have r: "raise_for_status r = Inl (HTTPError (status_code r))"
    using assms by (simp add: raise_for_status_def)
  have a: "get_bulk_xml_url e w =
      (Inl (HTTPError (status_code r)), print ''Fetching download page...'' w)"
    if "http_get e DOWNLOAD_PAGE_URL = Inr r" for w
    using that r by (simp add: get_bulk_xml_url_def Let_def)
  have b: "download_file e url p w =
      (Inl (HTTPError (status_code r)),
       print (''Downloading '' @ url @ '' to '' @ path_str p @ ''...'') w)"
    if "http_get e url = Inr r" for w p
    using that r by (simp add: download_file_def Let_def)
  show ?thesis
    using a b by (simp add: main_def)
qed

theorem http_error_status_aborts_witness:
  "main (sample_env (sample_response 404 ''Not Found'' Map.empty []) [] (Inl BadZipFile))
        (sample_world Map.empty) =
     (Inl (HTTPError 404),
      \<lparr>files = sample_dirs, stdout = [''Fetching download page...''], open_files = [],
       pbar = None\<rparr>)
   \<and> download_file (sample_env (sample_response 404 ''Not Found'' Map.empty []) [] (Inl BadZipFile))
        ''http://x/usc.zip'' [''usc.zip''] (sample_world sample_dirs) =
     (Inl (HTTPError 404),
      \<lparr>files = sample_dirs, stdout = [''Downloading http://x/usc.zip to /usc.zip...''],
       open_files = [], pbar = None\<rparr>)"
  using http_error_status_aborts [of "sample_response 404 ''Not Found'' Map.empty []"
      "sample_env (sample_response 404 ''Not Found'' Map.empty []) [] (Inl BadZipFile)"
      "sample_world sample_dirs" "''http://x/usc.zip''" "[''usc.zip'']"]
  by (simp add: sample_env_def sample_response_def sample_world_def sample_dirs_def
        ensure_dirs_def RAW_DIR_def XML_DIR_def makedirs.simps mkdir_def path_exists_def
        isdir_def print_def path_str_def fun_upd_twist)

text \<open>
  C4 as it is stated fails for a status that is neither a success nor an error for
  \<^verbatim>\<open>raise_for_status\<close>, such as 304: the resolver goes on and returns the link, and the
  downloader goes on and writes the file.
\<close>

theorem not_modified_status_counterexample:
  "status_code (sample_response 304 ''<html>page</html>'' Map.empty [Inr [1, 2]]) = 304
   \<and> fst (get_bulk_xml_url
         (sample_env (sample_response 304 ''<html>page</html>'' Map.empty [Inr [1, 2]])
            [anchor (Some ''/files/usc.zip'')] (Inl BadZipFile))
         (sample_world Map.empty)) = Inr ''https://uscode.house.gov/files/usc.zip''
   \<and> fst (download_file
         (sample_env (sample_response 304 ''<html>page</html>'' Map.empty [Inr [1, 2]])
            [anchor (Some ''/files/usc.zip'')] (Inl BadZipFile))
         ''https://uscode.house.gov/files/usc.zip'' [''usc.zip'']
         (sample_world Map.empty)) = Inr ()"
  by (simp add: get_bulk_xml_url_def download_file_def sample_env_def sample_response_def
        sample_world_def anchor_def raise_for_status_def soup_find_def response_total_def
        open_wb_def path_exists_def isdir_def print_def fwrite_def tqdm_update_def
        fclose_def ORIGIN_def Let_def)

section \<open>The downloader\<close>

lemma write_chunks_open_files:
  "open_files (snd (write_chunks s p w)) = open_files w"
  by (induction s p w rule: write_chunks.induct) (simp_all add: tqdm_update_def fwrite_def)


lemma write_chunks_all:
  "files w p = Some (File old) \<Longrightarrow> pbar w = Some b \<Longrightarrow>
   write_chunks (map Inr chunks) p w =
     (Inr (), w\<lparr>files := (files w)(p \<mapsto> File (old @ concat chunks)),
                pbar := Some (b\<lparr>pbar_n := pbar_n b + int (length (concat chunks))\<rparr>)\<rparr>)"
proof (induction chunks arbitrary: w old b)
  case Nil
  then show ?case by (simp add: fun_upd_idem)
next
  case (Cons c cs)
  show ?case
  proof (cases "c = []")
    case True
    with Cons show ?thesis by simp
  next
    case False
    let ?w = "tqdm_update (int (length c)) (fwrite p c w)"
    have f: "files ?w p = Some (File (old @ c))"
      using Cons.prems by (simp add: tqdm_update_def fwrite_def file_bytes_def)
    have b: "pbar ?w = Some (b\<lparr>pbar_n := pbar_n b + int (length c)\<rparr>)"
      using Cons.prems by (simp add: tqdm_update_def fwrite_def)
    have "write_chunks (map Inr (c # cs)) p w = write_chunks (map Inr cs) p ?w"
      using False by simp
    also have "\<dots> = (Inr (), ?w\<lparr>files := (files ?w)(p \<mapsto> File ((old @ c) @ concat cs)),
        pbar := Some (b\<lparr>pbar_n := pbar_n b + int (length c)\<rparr>
                 \<lparr>pbar_n := pbar_n (b\<lparr>pbar_n := pbar_n b + int (length c)\<rparr>) + int (length (concat cs))\<rparr>)\<rparr>)"
      by (rule Cons.IH [OF f b])
    also have "\<dots> = (Inr (), w\<lparr>files := (files w)(p \<mapsto> File (old @ concat (c # cs))),
                pbar := Some (b\<lparr>pbar_n := pbar_n b + int (length (concat (c # cs)))\<rparr>)\<rparr>)"
      by (simp add: tqdm_update_def fwrite_def add.assoc)
    finally show ?thesis .
  qed
qed

text \<open>
  C2. When the response has no error status, the size header is absent or an integer, the
  destination can be opened and the stream delivers the chunks without an exception, the
  downloader returns normally; the file at the destination holds the concatenation of the
  chunks and nothing else, whatever the chunk boundaries are and whether or not empty chunks
  occur; the progress count has advanced by the length of every chunk written, so that it
  ends at the length of the file.
\<close>

theorem download_reproduces_stream:
  assumes "http_get e url = Inr r"
    and "raise_for_status r = Inr ()"
    and "response_total e r = Some tot"
    and "isdir (files w) (butlast p)"
    and "\<not> isdir (files w) p"
    and "iter_content r = map Inr chunks"
  shows "download_file e url p w =
           (Inr (),
            w\<lparr>files := (files w)(p \<mapsto> File (concat chunks)),
              stdout := stdout w @ [''Downloading '' @ url @ '' to '' @ path_str p @ ''...'',
                                    ''Download completed successfully.''],
              pbar := Some \<lparr>pbar_total = tot, pbar_n = int (length (concat chunks))\<rparr>\<rparr>)"
proof -
  let ?w1 = "print (''Downloading '' @ url @ '' to '' @ path_str p @ ''...'') w"
  let ?w2 = "?w1\<lparr>files := (files w)(p \<mapsto> File []), open_files := p # open_files ?w1,
                 pbar := Some \<lparr>pbar_total = tot, pbar_n = 0\<rparr>\<rparr>"
  have o: "open_wb (files ?w1) p = Inr ((files w)(p \<mapsto> File []))"
    using assms(4,5) by (auto simp: open_wb_def print_def isdir_def path_exists_def)
  have wc: "write_chunks (iter_content r) p ?w2 =
      (Inr (), ?w2\<lparr>files := (files ?w2)(p \<mapsto> File ([] @ concat chunks)),
                 pbar := Some (\<lparr>pbar_total = tot, pbar_n = 0\<rparr>
                           \<lparr>pbar_n := pbar_n \<lparr>pbar_total = tot, pbar_n = 0\<rparr> + int (length (concat chunks))\<rparr>)\<rparr>)"
    unfolding assms(6) by (rule write_chunks_all) simp_all
  show ?thesis
    unfolding download_file_def Let_def assms(1) 
    using assms(2,3) o wc
    by (simp add: print_def fclose_def)
qed

text \<open>Two ways of cutting the bytes 1, 2, 3 into chunks give the same file.\<close>

theorem download_reproduces_stream_witness:
  "files (snd (download_file
        (sample_env (sample_response 200 [] Map.empty [Inr [1, 2], Inr [], Inr [3]]) [] (Inl BadZipFile))
        ''http://x/usc.zip'' [''usc.zip''] (sample_world Map.empty))) [''usc.zip'']
     = Some (File [1, 2, 3])
   \<and> files (snd (download_file
        (sample_env (sample_response 200 [] Map.empty [Inr [1], Inr [2, 3]]) [] (Inl BadZipFile))
        ''http://x/usc.zip'' [''usc.zip''] (sample_world Map.empty))) [''usc.zip'']
     = Some (File [1, 2, 3])
   \<and> pbar (snd (download_file
        (sample_env (sample_response 200 [] Map.empty [Inr [1, 2], Inr [], Inr [3]]) [] (Inl BadZipFile))
        ''http://x/usc.zip'' [''usc.zip''] (sample_world Map.empty)))
     = Some \<lparr>pbar_total = 0, pbar_n = 3\<rparr>"
  using download_reproduces_stream [of
      "sample_env (sample_response 200 [] Map.empty [Inr [1, 2], Inr [], Inr [3]]) [] (Inl BadZipFile)"
      "''http://x/usc.zip''" "sample_response 200 [] Map.empty [Inr [1, 2], Inr [], Inr [3]]"
      0 "sample_world Map.empty" "[''usc.zip'']" "[[1, 2], [], [3]]"]
    download_reproduces_stream [of
      "sample_env (sample_response 200 [] Map.empty [Inr [1], Inr [2, 3]]) [] (Inl BadZipFile)"
      "''http://x/usc.zip''" "sample_response 200 [] Map.empty [Inr [1], Inr [2, 3]]"
      0 "sample_world Map.empty" "[''usc.zip'']" "[[1], [2, 3]]"]
  by (simp add: sample_env_def sample_response_def sample_world_def raise_for_status_def
        response_total_def isdir_def)




text \<open>
  C9. Whatever the downloader does (it returns, the request fails, the status is an error,
  the size header is no integer, the file cannot be opened, the transport raises in the
  middle of the transfer), the file handles that are open when it is left are those that
  were open when it was entered: the handle of the destination is closed.
\<close>

theorem download_closes_file:
  "open_files (snd (download_file e url p w)) = open_files w"
  by (simp add: download_file_def Let_def split_beta print_def fclose_def
        write_chunks_open_files split: sum.splits option.splits)

text \<open>A transfer that raises after the first chunk: the chunk is on disk, no handle is open.\<close>

theorem download_closes_file_witness:
  "fst (download_file
        (sample_env (sample_response 200 [] Map.empty [Inr [1, 2], Inl ConnectionError]) [] (Inl BadZipFile))
        ''http://x/usc.zip'' [''usc.zip''] (sample_world Map.empty)) = Inl ConnectionError
   \<and> files (snd (download_file
        (sample_env (sample_response 200 [] Map.empty [Inr [1, 2], Inl ConnectionError]) [] (Inl BadZipFile))
        ''http://x/usc.zip'' [''usc.zip''] (sample_world Map.empty))) [''usc.zip'']
     = Some (File [1, 2])
   \<and> open_files (snd (download_file
        (sample_env (sample_response 200 [] Map.empty [Inr [1, 2], Inl ConnectionError]) [] (Inl BadZipFile))
        ''http://x/usc.zip'' [''usc.zip''] (sample_world Map.empty))) = []"
  using download_closes_file [of
      "sample_env (sample_response 200 [] Map.empty [Inr [1, 2], Inl ConnectionError]) [] (Inl BadZipFile)"
      "''http://x/usc.zip''" "[''usc.zip'']" "sample_world Map.empty"]
  by (simp add: download_file_def sample_env_def sample_response_def sample_world_def
        raise_for_status_def response_total_def open_wb_def path_exists_def isdir_def
        print_def fwrite_def tqdm_update_def fclose_def file_bytes_def Let_def)

section \<open>The directory preparer\<close>

lemma mkdir_Inr: "mkdir fs p = Inr fs' \<Longrightarrow> fs' = fs(p \<mapsto> Dir) \<and> fs p = None \<and> p \<noteq> []"
  by (auto simp: mkdir_def path_exists_def split: if_splits)

lemma mkdir_FileExists: "mkdir fs p = Inl FileExistsError \<Longrightarrow> path_exists fs p"
  by (auto simp: mkdir_def path_exists_def split: if_splits)

text \<open>One unfolding of makedirs, with the recursive call named.\<close>

lemma makedirs_unfold:
  assumes "(if p \<noteq> [] \<and> \<not> path_exists fs (butlast p)
            then makedirs fs (butlast p) ok else (None, fs)) = (e1, fs1)"
  shows "makedirs fs p ok =
          (if e1 \<noteq> None \<and> e1 \<noteq> Some FileExistsError then (e1, fs1)
           else (case mkdir fs1 p of
                   Inr fs2 \<Rightarrow> (None, fs2)
                 | Inl e \<Rightarrow> if ok \<and> isdir fs1 p then (None, fs1) else (Some e, fs1)))"
  by (subst makedirs.simps) (simp only: assms prod.case)

lemma makedirs_last_step:
  "snd (case mkdir fs1 p of
                   Inr fs2 \<Rightarrow> (None, fs2)
                 | Inl e \<Rightarrow> if ok \<and> isdir fs1 p then (None, fs1) else (Some e, fs1)) q = fs1 q
         \<or> (fs1 q = None \<and> q = p \<and> snd (case mkdir fs1 p of
                   Inr fs2 \<Rightarrow> (None, fs2)
                 | Inl e \<Rightarrow> if ok \<and> isdir fs1 p then (None, fs1) else (Some e, fs1)) q = Some Dir)"
  by (cases "mkdir fs1 p") (auto dest!: mkdir_Inr split: if_splits)

lemma makedirs_frame:
  "snd (makedirs fs p ok) q = fs q
   \<or> (fs q = None \<and> snd (makedirs fs p ok) q = Some Dir \<and> prefix q p)"
proof (induction fs p ok rule: makedirs.induct)
  case (1 fs p ok)
  obtain e1 fs1 where r:
    "(if p \<noteq> [] \<and> \<not> path_exists fs (butlast p)
      then makedirs fs (butlast p) ok else (None, fs)) = (e1, fs1)"
    by (cases "if p \<noteq> [] \<and> \<not> path_exists fs (butlast p)
               then makedirs fs (butlast p) ok else (None, fs)")
  have pre: "prefix q p" if "prefix q (butlast p)"
    using that prefix_order.trans prefixeq_butlast by blast
  have ih: "fs1 q = fs q \<or> (fs q = None \<and> fs1 q = Some Dir \<and> prefix q p)"
  proof (cases "p \<noteq> [] \<and> \<not> path_exists fs (butlast p)")
    case True
    with r have "makedirs fs (butlast p) ok = (e1, fs1)" by simp
    with "1.IH" [OF True] pre show ?thesis by auto
  next
    case False
    with r show ?thesis by auto
  qed
  show ?case
  proof (cases "e1 \<noteq> None \<and> e1 \<noteq> Some FileExistsError")
    case True
    then show ?thesis using ih by (simp add: makedirs_unfold [OF r])
  next
    case False
    from makedirs_last_step [where ?fs1.0 = fs1 and p = p and ok = ok and q = q] ih False
    show ?thesis by (auto simp: makedirs_unfold [OF r])
  qed
qed


lemma makedirs_keeps:
  "fs q \<noteq> None \<Longrightarrow> snd (makedirs fs p ok) q = fs q"
  using makedirs_frame [of fs p ok q] by auto

lemma makedirs_keeps_isdir:
  "isdir fs q \<Longrightarrow> isdir (snd (makedirs fs p ok)) q"
  using makedirs_keeps [of fs q p ok] by (auto simp: isdir_def)

lemma makedirs_keeps_exists:
  "path_exists fs q \<Longrightarrow> path_exists (snd (makedirs fs p ok)) q"
  using makedirs_keeps [of fs q p ok] by (auto simp: path_exists_def)

text \<open>After the recursive call, the parent exists unless an error is passed on.\<close>

lemma makedirs_success:
  assumes "makedirs fs p ok = (None, fs')"
  shows "isdir fs' p \<and> path_exists fs' (butlast p)"
  using assms
proof (induction fs p ok arbitrary: fs' rule: makedirs.induct)
  case (1 fs p ok)
  obtain e1 fs1 where r:
    "(if p \<noteq> [] \<and> \<not> path_exists fs (butlast p)
      then makedirs fs (butlast p) ok else (None, fs)) = (e1, fs1)"
    by (cases "if p \<noteq> [] \<and> \<not> path_exists fs (butlast p)
               then makedirs fs (butlast p) ok else (None, fs)")
  note u = makedirs_unfold [OF r]
  from "1.prems" u have e1: "e1 = None \<or> e1 = Some FileExistsError"
    by (auto split: if_splits)
  have last: "(case mkdir fs1 p of
                   Inr fs2 \<Rightarrow> (None, fs2)
                 | Inl e \<Rightarrow> if ok \<and> isdir fs1 p then (None, fs1) else (Some e, fs1)) = (None, fs')"
    using "1.prems" u e1 by (auto split: if_splits)
  have parent: "path_exists fs1 (butlast p)"
  proof (cases "p \<noteq> [] \<and> \<not> path_exists fs (butlast p)")
    case False
    with r show ?thesis by (auto simp: path_exists_def)
  next
    case True
    with r have rr: "makedirs fs (butlast p) ok = (e1, fs1)" by simp
    show ?thesis
    proof (cases e1)
      case None
      with "1.IH" [OF True] rr show ?thesis by (auto simp: isdir_def path_exists_def)
    next
      case (Some err)
      with e1 have fe: "e1 = Some FileExistsError" by simp
      obtain e0 fs0 where r0:
        "(if butlast p \<noteq> [] \<and> \<not> path_exists fs (butlast (butlast p))
          then makedirs fs (butlast (butlast p)) ok else (None, fs)) = (e0, fs0)"
        by (cases "if butlast p \<noteq> [] \<and> \<not> path_exists fs (butlast (butlast p))
               then makedirs fs (butlast (butlast p)) ok else (None, fs)")
      from rr fe makedirs_unfold [OF r0]
      have "mkdir fs1 (butlast p) = Inl FileExistsError"
        by (auto split: if_splits sum.splits)
      then show ?thesis by (rule mkdir_FileExists)
    qed
  qed
  show ?case
  proof (cases "mkdir fs1 p")
    case (Inr fs2)
    with last have "fs' = fs2" by simp
    with Inr mkdir_Inr [of fs1 p fs2] parent show ?thesis
      by (auto simp: isdir_def path_exists_def)
  next
    case (Inl err)
    with last have "fs' = fs1 \<and> isdir fs1 p" by (auto split: if_splits)
    with parent show ?thesis by simp
  qed
qed

lemma makedirs_existing:
  assumes "isdir fs p" and "path_exists fs (butlast p)"
  shows "makedirs fs p True = (None, fs)"
proof -
  have r: "(if p \<noteq> [] \<and> \<not> path_exists fs (butlast p)
      then makedirs fs (butlast p) True else (None, fs)) = (None, fs)"
    using assms by simp
  have "\<exists>err. mkdir fs p = Inl err"
    using assms by (auto simp: mkdir_def isdir_def path_exists_def)
  then show ?thesis
    using assms by (auto simp: makedirs_unfold [OF r])
qed

lemma makedirs_idem:
  "makedirs fs p True = (None, fs') \<Longrightarrow> makedirs fs' p True = (None, fs')"
  using makedirs_success [of fs p True fs'] makedirs_existing [of fs' p] by simp


lemma ensure_dirs_again:
  assumes "ensure_dirs e w = (Inr (), w1)"
  shows "ensure_dirs e w1 = (Inr (), w1)"
proof -
  obtain e1 fs1 where m1: "makedirs (files w) (RAW_DIR e) True = (e1, fs1)"
    by (cases "makedirs (files w) (RAW_DIR e) True")
  obtain e2 fs2 where m2: "makedirs fs1 (XML_DIR e) True = (e2, fs2)"
    by (cases "makedirs fs1 (XML_DIR e) True")
  from assms m1 have e1: "e1 = None"
    by (cases e1) (simp_all add: ensure_dirs_def)
  from assms m1 m2 e1 have e2: "e2 = None"
    by (cases e2) (simp_all add: ensure_dirs_def)
  from assms m1 m2 e1 e2 have w1: "w1 = w\<lparr>files := fs2\<rparr>"
    by (simp add: ensure_dirs_def)
  have raw1: "isdir fs1 (RAW_DIR e) \<and> path_exists fs1 (butlast (RAW_DIR e))"
    using makedirs_success m1 e1 by simp
  have raw2: "isdir fs2 (RAW_DIR e) \<and> path_exists fs2 (butlast (RAW_DIR e))"
    using raw1 makedirs_keeps_isdir [of fs1 "RAW_DIR e" "XML_DIR e" True]
      makedirs_keeps_exists [of fs1 "butlast (RAW_DIR e)" "XML_DIR e" True] m2
    by simp
  have a: "makedirs fs2 (RAW_DIR e) True = (None, fs2)"
    using raw2 by (simp add: makedirs_existing)
  have b: "makedirs fs2 (XML_DIR e) True = (None, fs2)"
    using m2 e2 by (simp add: makedirs_idem)
  show ?thesis
    by (simp add: ensure_dirs_def w1 a b)
qed

lemma not_prefix_butlast: "p \<noteq> [] \<Longrightarrow> \<not> prefix p (butlast p)"
  by (cases p rule: rev_cases) (auto simp: prefix_def)

lemma makedirs_creates:
  assumes "isdir fs out"
    and "\<forall>q. prefix q r \<and> q \<noteq> [] \<longrightarrow> free_or_dir fs (out @ q)"
    and "\<not> path_exists fs (out @ r)"
  shows "fst (makedirs fs (out @ r) ok) = None"
  using assms
proof (induction r rule: rev_induct)
  case Nil
  then show ?case by (auto simp: isdir_def path_exists_def)
next
  case (snoc c r)
  define p where "p = out @ r @ [c]"
  have bl: "butlast p = out @ r" by (simp add: p_def butlast_append)
  have pne: "p \<noteq> []" by (simp add: p_def)
  have pfree: "fs p = None" using snoc.prems(3) by (simp add: path_exists_def p_def)
  obtain e1 fs1 where r:
    "(if p \<noteq> [] \<and> \<not> path_exists fs (butlast p)
      then makedirs fs (butlast p) ok else (None, fs)) = (e1, fs1)"
    by (cases "if p \<noteq> [] \<and> \<not> path_exists fs (butlast p)
               then makedirs fs (butlast p) ok else (None, fs)")
  have par: "e1 = None \<and> isdir fs1 (butlast p) \<and> fs1 p = None"
  proof (cases "path_exists fs (out @ r)")
    case True
    have "isdir fs (out @ r)"
    proof (cases "r = []")
      case True
      with snoc.prems(1) show ?thesis by simp
    next
      case False
      with snoc.prems(2) have "free_or_dir fs (out @ r)" by simp
      with True False show ?thesis by (auto simp: free_or_dir_def isdir_def path_exists_def)
    qed
    with True r pfree show ?thesis by (simp add: bl)
  next
    case False
    with r pne have rr: "makedirs fs (out @ r) ok = (e1, fs1)" by (simp add: bl)
    have "fst (makedirs fs (out @ r) ok) = None"
      using snoc.IH snoc.prems(1,2) False by simp
    with rr have e1: "e1 = None" by simp
    with rr makedirs_success [of fs "out @ r" ok fs1] have d: "isdir fs1 (out @ r)" by simp
    from makedirs_frame [of fs "out @ r" ok p] rr pfree not_prefix_butlast [OF pne]
    have "fs1 p = None" by (auto simp: bl)
    with e1 d show ?thesis by (simp add: bl)
  qed
  then have "mkdir fs1 p = Inr (fs1(p \<mapsto> Dir))"
    using pne by (auto simp: mkdir_def path_exists_def isdir_def)
  with par have "fst (makedirs fs p ok) = None"
    by (simp add: makedirs_unfold [OF r])
  then show ?case by (simp add: p_def)
qed

lemma clear_way_prefix: "clear_way fs p \<Longrightarrow> prefix q p \<Longrightarrow> q \<noteq> [] \<Longrightarrow> free_or_dir fs q"
  by (simp add: clear_way_def)

lemma makedirs_clear:
  assumes "clear_way fs p"
  shows "fst (makedirs fs p True) = None"
proof (cases "path_exists fs p")
  case False
  have "\<forall>q. prefix q p \<and> q \<noteq> [] \<longrightarrow> free_or_dir fs ([] @ q)"
    using clear_way_prefix [OF assms] by simp
  from makedirs_creates [of fs "[]" p True, OF _ this] False show ?thesis
    by (simp add: isdir_def)
next
  case True
  have d: "isdir fs p"
  proof (cases "p = []")
    case True
    then show ?thesis by (simp add: isdir_def)
  next
    case False
    with clear_way_prefix [OF assms, of p] have "free_or_dir fs p" by simp
    with True False show ?thesis by (auto simp: free_or_dir_def isdir_def path_exists_def)
  qed
  obtain e1 fs1 where r:
    "(if p \<noteq> [] \<and> \<not> path_exists fs (butlast p)
      then makedirs fs (butlast p) True else (None, fs)) = (e1, fs1)"
    by (cases "if p \<noteq> [] \<and> \<not> path_exists fs (butlast p)
               then makedirs fs (butlast p) True else (None, fs)")
  have e1: "e1 = None \<and> isdir fs1 p"
  proof (cases "p \<noteq> [] \<and> \<not> path_exists fs (butlast p)")
    case False
    with r d show ?thesis by auto
  next
    case up: True
    have "\<forall>q. prefix q (butlast p) \<and> q \<noteq> [] \<longrightarrow> free_or_dir fs ([] @ q)"
      using clear_way_prefix [OF assms] prefixeq_butlast [of p] prefix_order.trans
      by (metis append_Nil)
    from makedirs_creates [of fs "[]" "butlast p" True, OF _ this] up
    have "fst (makedirs fs (butlast p) True) = None" by (simp add: isdir_def)
    moreover from up r have "makedirs fs (butlast p) True = (e1, fs1)" by simp
    ultimately have "e1 = None" by simp
    moreover have "isdir fs1 p"
      using makedirs_keeps_isdir [OF d, of "butlast p" True]
        \<open>makedirs fs (butlast p) True = (e1, fs1)\<close> by simp
    ultimately show ?thesis by simp
  qed
  show ?thesis
    using e1 by (cases "mkdir fs1 p") (simp_all add: makedirs_unfold [OF r])
qed

lemma clear_way_kept:
  assumes "clear_way fs q"
  shows "clear_way (snd (makedirs fs p ok)) q"
  unfolding clear_way_def
proof (intro ballI impI)
  fix x assume x: "x \<in> set (prefixes q)" "x \<noteq> []"
  with assms have "free_or_dir fs x" by (simp add: clear_way_def)
  with makedirs_frame [of fs p ok x] show "free_or_dir (snd (makedirs fs p ok)) x"
    by (auto simp: free_or_dir_def)
qed


lemma ensure_dirs_clear:
  assumes "clear_way (files w) (RAW_DIR e)" and "clear_way (files w) (XML_DIR e)"
  shows "\<exists>w1. ensure_dirs e w = (Inr (), w1)"
proof -
  obtain e1 fs1 where m1: "makedirs (files w) (RAW_DIR e) True = (e1, fs1)"
    by (cases "makedirs (files w) (RAW_DIR e) True")
  with makedirs_clear [OF assms(1)] have e1: "e1 = None" by simp
  have "clear_way fs1 (XML_DIR e)"
    using clear_way_kept [OF assms(2), of "RAW_DIR e" True] m1 by simp
  from makedirs_clear [OF this] obtain fs2 where m2: "makedirs fs1 (XML_DIR e) True = (None, fs2)"
    by (cases "makedirs fs1 (XML_DIR e) True") auto
  show ?thesis
    using m1 e1 m2 by (simp add: ensure_dirs_def)
qed

text \<open>
  C7, as amended. Two calls in succession always have the outcome of one call, result and
  world alike. When the way to both targets is clear (every path from the root down to a
  target is free or a directory), both calls return: the first call returns, a second call
  in the world so reached returns and leaves that world as it is, and the targets are
  directories afterwards. A target that is a directory already is no error, and when both
  targets are directories below an existing parent the world is not changed at all.
\<close>

theorem ensure_dirs_idempotent:
  "ensure_dirs_twice e w = ensure_dirs e w
   \<and> (clear_way (files w) (RAW_DIR e) \<and> clear_way (files w) (XML_DIR e) \<longrightarrow>
        (\<exists>w1. ensure_dirs e w = (Inr (), w1)
              \<and> ensure_dirs e w1 = (Inr (), w1)
              \<and> ensure_dirs_twice e w = (Inr (), w1)
              \<and> isdir (files w1) (RAW_DIR e) \<and> isdir (files w1) (XML_DIR e)
              \<and> (isdir (files w) (RAW_DIR e) \<and> isdir (files w) (XML_DIR e)
                   \<and> path_exists (files w) (butlast (RAW_DIR e)) \<longrightarrow> w1 = w)))"
proof -
  have twice: "ensure_dirs_twice e w = ensure_dirs e w"
  proof (cases "ensure_dirs e w")
    case (Pair r w1)
    show ?thesis
    proof (cases r)
      case (Inl err)
      with Pair show ?thesis by (simp add: ensure_dirs_twice_def)
    next
      case (Inr u)
      with Pair ensure_dirs_again [of e w w1] show ?thesis
        by (simp add: ensure_dirs_twice_def)
    qed
  qed
  have same_parent: "butlast (XML_DIR e) = butlast (RAW_DIR e)"
    by (simp add: XML_DIR_def RAW_DIR_def butlast_append)
  have present: "ensure_dirs e w = (Inr (), w)"
    if "isdir (files w) (RAW_DIR e)" "isdir (files w) (XML_DIR e)"
       "path_exists (files w) (butlast (RAW_DIR e))"
    using that same_parent by (simp add: ensure_dirs_def makedirs_existing)
  have clear: "\<exists>w1. ensure_dirs e w = (Inr (), w1)
              \<and> ensure_dirs e w1 = (Inr (), w1)
              \<and> ensure_dirs_twice e w = (Inr (), w1)
              \<and> isdir (files w1) (RAW_DIR e) \<and> isdir (files w1) (XML_DIR e)
              \<and> (isdir (files w) (RAW_DIR e) \<and> isdir (files w) (XML_DIR e)
                   \<and> path_exists (files w) (butlast (RAW_DIR e)) \<longrightarrow> w1 = w)"
    if c: "clear_way (files w) (RAW_DIR e)" "clear_way (files w) (XML_DIR e)"
  proof -
    from ensure_dirs_clear [OF c] obtain w1 where w1: "ensure_dirs e w = (Inr (), w1)" ..
    have again: "ensure_dirs e w1 = (Inr (), w1)" by (rule ensure_dirs_again [OF w1])
    have tw: "ensure_dirs_twice e w = (Inr (), w1)" using twice w1 by simp
    obtain fs1 where m1: "makedirs (files w1) (RAW_DIR e) True = (None, fs1)"
      using again by (auto simp: ensure_dirs_def split: prod.splits option.splits)
    obtain fs2 where m2: "makedirs fs1 (XML_DIR e) True = (None, fs2)"
      using again m1 by (auto simp: ensure_dirs_def split: prod.splits option.splits)
    from again m1 m2 have eq: "w1 = w1\<lparr>files := fs2\<rparr>" by (simp add: ensure_dirs_def)
    have d1: "isdir fs1 (RAW_DIR e)" using makedirs_success [OF m1] by simp
    have "isdir fs2 (RAW_DIR e)"
      using makedirs_keeps_isdir [OF d1, of "XML_DIR e" True] m2 by simp
    moreover have "isdir fs2 (XML_DIR e)" using makedirs_success [OF m2] by simp
    moreover have "files w1 = fs2" using arg_cong [OF eq, of files] by simp
    ultimately have dirs: "isdir (files w1) (RAW_DIR e) \<and> isdir (files w1) (XML_DIR e)" by simp
    have "w1 = w" if "isdir (files w) (RAW_DIR e)" "isdir (files w) (XML_DIR e)"
       "path_exists (files w) (butlast (RAW_DIR e))"
      using present [OF that] w1 by simp
    with w1 again tw dirs show ?thesis by blast
  qed
  show ?thesis using twice clear by blast
qed

text \<open>
  From an empty filesystem the preparer makes the two directories and their parents; a
  second call, and a call in the world so reached, change nothing.
\<close>

theorem ensure_dirs_idempotent_witness:
  "clear_way (files (sample_world Map.empty))
      (RAW_DIR (sample_env (sample_response 200 [] Map.empty []) [] (Inl BadZipFile)))
   \<and> ensure_dirs (sample_env (sample_response 200 [] Map.empty []) [] (Inl BadZipFile))
       (sample_world Map.empty) = (Inr (), sample_world sample_dirs)
   \<and> ensure_dirs_twice (sample_env (sample_response 200 [] Map.empty []) [] (Inl BadZipFile))
       (sample_world Map.empty) = (Inr (), sample_world sample_dirs)
   \<and> ensure_dirs (sample_env (sample_response 200 [] Map.empty []) [] (Inl BadZipFile))
       (sample_world sample_dirs) = (Inr (), sample_world sample_dirs)"
proof -
  have first: "ensure_dirs (sample_env (sample_response 200 [] Map.empty []) [] (Inl BadZipFile))
       (sample_world Map.empty) = (Inr (), sample_world sample_dirs)"
    by (simp add: sample_env_def sample_world_def sample_dirs_def ensure_dirs_def RAW_DIR_def
          XML_DIR_def makedirs.simps mkdir_def path_exists_def isdir_def fun_upd_twist)
  have c: "clear_way (files (sample_world Map.empty))
      (RAW_DIR (sample_env (sample_response 200 [] Map.empty []) [] (Inl BadZipFile)))"
    "clear_way (files (sample_world Map.empty))
      (XML_DIR (sample_env (sample_response 200 [] Map.empty []) [] (Inl BadZipFile)))"
    by (simp_all add: clear_way_def free_or_dir_def sample_world_def)
  show ?thesis
    using first c
      ensure_dirs_idempotent [of "sample_env (sample_response 200 [] Map.empty []) [] (Inl BadZipFile)"
        "sample_world Map.empty"]
    by simp
qed

text \<open>
  C7 as it is stated fails in a filesystem where a regular file is in the way: with a file
  at \<^verbatim>\<open>/repo\<close> one call raises, and so do two.
\<close>

theorem blocked_directory_counterexample:
  "fst (ensure_dirs (sample_env (sample_response 200 [] Map.empty []) [] (Inl BadZipFile))
         (sample_world blocked_fs)) = Inl NotADirectoryError
   \<and> fst (ensure_dirs_twice (sample_env (sample_response 200 [] Map.empty []) [] (Inl BadZipFile))
         (sample_world blocked_fs)) = Inl NotADirectoryError"
  by (simp add: sample_env_def sample_world_def blocked_fs_def ensure_dirs_twice_def
        ensure_dirs_def RAW_DIR_def XML_DIR_def makedirs.simps mkdir_def path_exists_def
        isdir_def)

section \<open>The extractor\<close>

text \<open>
  The extraction of an archive. \<^verbatim>\<open>makedirs\<close> succeeds where only directories are in the
  way; the extraction of one member puts the member at its target, or raises what reading
  the member raises, and otherwise only turns free paths above the target into directories;
  by induction on the members, each readable member is at its target when the last one has
  been extracted.
\<close>

lemma extract_member_unfold:
  assumes "(if \<not> path_exists fs (butlast (target out m))
            then makedirs fs (butlast (target out m)) False else (None, fs)) = (None, fs1)"
  shows "extract_member fs out m =
          (if is_dir (fst m)
           then (if \<not> isdir fs1 (target out m)
                 then (case mkdir fs1 (target out m) of
                         Inl err \<Rightarrow> (Some err, fs1)
                       | Inr fs2 \<Rightarrow> (None, fs2))
                 else (None, fs1))
           else (case snd m of
                   FailsAtOpen err \<Rightarrow> (Some err, fs1)
                 | Content content \<Rightarrow>
                     (case open_wb fs1 (target out m) of
                        Inl err \<Rightarrow> (Some err, fs1)
                      | Inr fs2 \<Rightarrow> (None, fs2(target out m \<mapsto> File content)))
                 | FailsAfter written err \<Rightarrow>
                     (case open_wb fs1 (target out m) of
                        Inl err' \<Rightarrow> (Some err', fs1)
                      | Inr fs2 \<Rightarrow> (Some err, fs2(target out m \<mapsto> File written)))))"
  using assms unfolding extract_member_def Let_def target_def
  by (simp only: prod.case option.case)

lemma dest_ready_above:
  assumes "dest_ready fs out m" and "prefix q (butlast (arcname_parts (fst m)))" and "q \<noteq> []"
  shows "free_or_dir fs (out @ q)"
proof -
  have ne: "arcname_parts (fst m) \<noteq> []" using assms(2,3) by auto
  have "prefix q (arcname_parts (fst m))"
    using assms(2) prefixeq_butlast prefix_order.trans by blast
  moreover have "q \<noteq> arcname_parts (fst m)"
    using assms(2) not_prefix_butlast [OF ne] by auto
  ultimately show ?thesis
    using assms(1,3) by (simp add: dest_ready_def)
qed

lemma upper_ready:
  assumes "isdir fs out" and "arcname_parts (fst m) \<noteq> []" and "dest_ready fs out m"
  shows "\<exists>fs1. (if \<not> path_exists fs (butlast (target out m))
               then makedirs fs (butlast (target out m)) False else (None, fs)) = (None, fs1)
             \<and> isdir fs1 (butlast (target out m))
             \<and> (\<forall>q. fs1 q = fs q
                    \<or> (fs q = None \<and> fs1 q = Some Dir \<and> prefix q (butlast (target out m))))"
proof -
  define r where "r = butlast (arcname_parts (fst m))"
  have u: "butlast (target out m) = out @ r"
    using assms(2) by (simp add: target_def r_def butlast_append)
  show ?thesis
  proof (cases "path_exists fs (out @ r)")
    case True
    have "isdir fs (out @ r)"
    proof (cases "r = []")
      case True
      with assms(1) show ?thesis by simp
    next
      case False
      have "free_or_dir fs (out @ r)"
        using dest_ready_above [OF assms(3), of r] False by (simp add: r_def)
      with True False show ?thesis by (auto simp: free_or_dir_def isdir_def path_exists_def)
    qed
    with True show ?thesis by (simp add: u)
  next
    case False
    have "\<forall>q. prefix q r \<and> q \<noteq> [] \<longrightarrow> free_or_dir fs (out @ q)"
      using dest_ready_above [OF assms(3)] by (simp add: r_def)
    from makedirs_creates [OF assms(1) this False, of False]
    obtain fs1 where mk: "makedirs fs (out @ r) False = (None, fs1)"
      by (cases "makedirs fs (out @ r) False") auto
    from makedirs_success [OF mk] have "isdir fs1 (out @ r)" by simp
    moreover have "\<forall>q. fs1 q = fs q \<or> (fs q = None \<and> fs1 q = Some Dir \<and> prefix q (out @ r))"
      using makedirs_frame [of fs "out @ r" False] mk by simp
    ultimately show ?thesis using False mk by (simp add: u)
  qed
qed

lemma prefix_butlast_strict: "t \<noteq> [] \<Longrightarrow> prefix q (butlast t) \<Longrightarrow> strict_prefix q t"
  using not_prefix_butlast [of t] prefixeq_butlast [of t] prefix_order.trans [of q "butlast t" t]
  by (auto simp: strict_prefix_def)

text \<open>
  A file member, whatever reading it gives: the way to the target is made, and then the
  member is written, or raises before the target is opened, or raises after some bytes.
\<close>

lemma extract_file_member:
  assumes "isdir fs out" and "arcname_parts (fst m) \<noteq> []" and "dest_ready fs out m"
    and "\<not> is_dir (fst m)"
  shows "\<exists>fs'. extract_member fs out m =
                 (case snd m of Content d \<Rightarrow> None | FailsAtOpen err \<Rightarrow> Some err
                  | FailsAfter d err \<Rightarrow> Some err, fs')
             \<and> (case snd m of Content d \<Rightarrow> fs' (target out m) = Some (File d)
                 | FailsAtOpen err \<Rightarrow> fs' (target out m) = fs (target out m)
                 | FailsAfter d err \<Rightarrow> fs' (target out m) = Some (File d))
             \<and> (\<forall>q. q \<noteq> target out m \<longrightarrow>
                    fs' q = fs q
                    \<or> (fs q = None \<and> fs' q = Some Dir \<and> strict_prefix q (target out m)))"
proof -
  define t where "t = target out m"
  have tne: "t \<noteq> []" using assms(2) by (simp add: t_def target_def)
  from upper_ready [OF assms(1,2,3)] obtain fs1 where
    up: "(if \<not> path_exists fs (butlast t)
          then makedirs fs (butlast t) False else (None, fs)) = (None, fs1)"
    and d: "isdir fs1 (butlast t)"
    and fr: "\<forall>q. fs1 q = fs q \<or> (fs q = None \<and> fs1 q = Some Dir \<and> prefix q (butlast t))"
    unfolding t_def by blast
  have pe: "path_exists fs1 (butlast t)" using d by (auto simp: isdir_def path_exists_def)
  have same: "fs1 t = fs t"
    using fr not_prefix_butlast [OF tne] by auto
  have frame: "fs1 q = fs q \<or> (fs q = None \<and> fs1 q = Some Dir \<and> strict_prefix q t)" for q
    using fr prefix_butlast_strict [OF tne, of q] by auto
  note unf = extract_member_unfold [OF up [unfolded t_def], folded t_def]
  from assms(3,4) have "fs t \<noteq> Some Dir" by (simp add: dest_ready_def t_def)
  with same tne have "\<not> isdir fs1 t" by (simp add: isdir_def)
  with d pe have ow: "open_wb fs1 t = Inr (fs1(t \<mapsto> File []))"
    by (simp add: open_wb_def)
  show ?thesis
  proof (cases "snd m")
    case (Content c)
    with assms(4) ow frame unf same show ?thesis
      by (auto simp: t_def [symmetric])
  next
    case (FailsAtOpen err)
    with assms(4) ow frame unf same show ?thesis
      by (auto simp: t_def [symmetric])
  next
    case (FailsAfter c err)
    with assms(4) ow frame unf same show ?thesis
      by (auto simp: t_def [symmetric])
  qed
qed

lemma extract_dir_member:
  assumes "isdir fs out" and "arcname_parts (fst m) \<noteq> []" and "dest_ready fs out m"
    and "is_dir (fst m)"
  shows "\<exists>fs'. extract_member fs out m = (None, fs')
             \<and> fs' (target out m) = Some Dir
             \<and> (\<forall>q. q \<noteq> target out m \<longrightarrow>
                    fs' q = fs q
                    \<or> (fs q = None \<and> fs' q = Some Dir \<and> strict_prefix q (target out m)))"
proof -
  define t where "t = target out m"
  have tne: "t \<noteq> []" using assms(2) by (simp add: t_def target_def)
  from upper_ready [OF assms(1,2,3)] obtain fs1 where
    up: "(if \<not> path_exists fs (butlast t)
          then makedirs fs (butlast t) False else (None, fs)) = (None, fs1)"
    and d: "isdir fs1 (butlast t)"
    and fr: "\<forall>q. fs1 q = fs q \<or> (fs q = None \<and> fs1 q = Some Dir \<and> prefix q (butlast t))"
    unfolding t_def by blast
  have pe: "path_exists fs1 (butlast t)" using d by (auto simp: isdir_def path_exists_def)
  have same: "fs1 t = fs t"
    using fr not_prefix_butlast [OF tne] by auto
  have frame: "fs1 q = fs q \<or> (fs q = None \<and> fs1 q = Some Dir \<and> strict_prefix q t)" for q
    using fr prefix_butlast_strict [OF tne, of q] by auto
  note unf = extract_member_unfold [OF up [unfolded t_def], folded t_def]
  from assms(3,4) have fd: "free_or_dir fs t" by (simp add: dest_ready_def t_def)
  show ?thesis
  proof (cases "isdir fs1 t")
    case True
    with tne have "fs1 t = Some Dir" by (simp add: isdir_def)
    with assms(4) True frame unf show ?thesis
      by (auto simp: t_def [symmetric])
  next
    case False
    with fd same tne have "fs1 t = None" by (auto simp: free_or_dir_def isdir_def)
    with d pe tne have "mkdir fs1 t = Inr (fs1(t \<mapsto> Dir))"
      by (simp add: mkdir_def path_exists_def)
    with assms(4) False frame unf show ?thesis
      by (auto simp: t_def [symmetric])
  qed
qed

lemma extract_member_ok:
  fixes m :: "string \<times> bytes"
  assumes "isdir fs out" and "arcname_parts (fst m) \<noteq> []" and "dest_ready fs out m"
  shows "\<exists>fs'. extract_member fs out (fst m, Content (snd m)) = (None, fs')
             \<and> fs' (target out m) = Some (extracted m)
             \<and> (\<forall>q. q \<noteq> target out m \<longrightarrow>
                    fs' q = fs q
                    \<or> (fs q = None \<and> fs' q = Some Dir \<and> strict_prefix q (target out m)))"
proof -
  let ?m = "(fst m, Content (snd m))"
  have t: "target out ?m = target out m" by (simp add: target_def)
  have r: "dest_ready fs out ?m"
    using assms(3) by (simp add: dest_ready_def target_def split: if_splits)
  have n: "arcname_parts (fst ?m) \<noteq> []" using assms(2) by simp
  show ?thesis
  proof (cases "is_dir (fst m)")
    case True
    then have "is_dir (fst ?m)" by simp
    from extract_dir_member [OF assms(1) n r this] True show ?thesis
      by (simp add: t extracted_def)
  next
    case False
    then have "\<not> is_dir (fst ?m)" by simp
    from extract_file_member [OF assms(1) n r this] False show ?thesis
      by (simp add: t extracted_def)
  qed
qed

lemma dest_ready_step:
  fixes m :: "string \<times> bytes"
  assumes fr: "\<forall>q. q \<noteq> target out m \<longrightarrow>
                 fs1 q = fs q
                 \<or> (fs q = None \<and> fs1 q = Some Dir \<and> strict_prefix q (target out m))"
    and at: "fs1 (target out m) = Some (extracted m)"
    and rd: "dest_ready fs out m'"
    and c1: "no_clash m m'"
    and c2: "no_clash m' m"
  shows "dest_ready fs1 out m'"
proof -
  let ?a = "arcname_parts (fst m)"
  let ?b = "arcname_parts (fst m')"
  have above: "free_or_dir fs1 (out @ q)"
    if q: "prefix q ?b" "q \<noteq> []" "q \<noteq> ?b" for q
  proof (cases "out @ q = target out m")
    case True
    then have "q = ?a" by (simp add: target_def)
    with q(1) c1 have "is_dir (fst m)" by (simp add: no_clash_def)
    with at True show ?thesis by (simp add: free_or_dir_def extracted_def)
  next
    case False
    from rd q have "free_or_dir fs (out @ q)" by (simp add: dest_ready_def)
    with fr False show ?thesis by (auto simp: free_or_dir_def)
  qed
  have leaf: "if is_dir (fst m') then free_or_dir fs1 (target out m')
              else fs1 (target out m') \<noteq> Some Dir"
  proof (cases "is_dir (fst m')")
    case True
    with rd have f: "free_or_dir fs (target out m')" by (simp add: dest_ready_def)
    show ?thesis
    proof (cases "target out m' = target out m")
      case same: True
      then have "?b = ?a" by (simp add: target_def)
      with c1 have "is_dir (fst m)" by (simp add: no_clash_def)
      with at same True show ?thesis by (simp add: free_or_dir_def extracted_def)
    next
      case False
      with fr f True show ?thesis by (auto simp: free_or_dir_def)
    qed
  next
    case False
    with rd have f: "fs (target out m') \<noteq> Some Dir" by (simp add: dest_ready_def)
    from False c2 have np: "\<not> prefix ?b ?a" by (simp add: no_clash_def)
    then have ne: "target out m' \<noteq> target out m" by (auto simp: target_def)
    have "\<not> strict_prefix (target out m') (target out m)"
      using np by (simp add: target_def strict_prefix_def)
    with fr ne f False show ?thesis by auto
  qed
  show ?thesis
    unfolding dest_ready_def using above leaf by simp
qed

lemma extractall_ok:
  fixes ms :: "(string \<times> bytes) list" and later :: "string \<times> 'b"
  assumes "isdir fs out"
    and "\<forall>m \<in> set ms. arcname_parts (fst m) \<noteq> [] \<and> dest_ready fs out m"
    and "conflict_free ms"
  shows "\<exists>fs'. extractall fs out (readable ms) = (None, fs')
             \<and> (\<forall>m \<in> set ms. fs' (target out m) = Some (extracted m))
             \<and> (\<forall>q. fs' q = fs q \<or> (\<exists>m \<in> set ms. q = target out m) \<or> fs q = None)
             \<and> isdir fs' out
             \<and> (dest_ready fs out later \<and> (\<forall>m \<in> set ms. no_clash m later \<and> no_clash later m)
                  \<longrightarrow> dest_ready fs' out later)"
  using assms
proof (induction ms arbitrary: fs)
  case Nil
  then show ?case by (simp add: readable_def)
next
  case (Cons m ms)
  from Cons.prems(2) have ne: "arcname_parts (fst m) \<noteq> []" and rd: "dest_ready fs out m"
    by simp_all
  from extract_member_ok [OF Cons.prems(1) ne rd] obtain fs1 where
    ex: "extract_member fs out (fst m, Content (snd m)) = (None, fs1)"
    and at: "fs1 (target out m) = Some (extracted m)"
    and fr: "\<forall>q. q \<noteq> target out m \<longrightarrow>
                 fs1 q = fs q
                 \<or> (fs q = None \<and> fs1 q = Some Dir \<and> strict_prefix q (target out m))"
    by blast
  have out_ne: "out \<noteq> target out m" using ne by (simp add: target_def)
  have d1: "isdir fs1 out"
    using Cons.prems(1) fr out_ne by (auto simp: isdir_def)
  have r1: "\<forall>m' \<in> set ms. arcname_parts (fst m') \<noteq> [] \<and> dest_ready fs1 out m'"
  proof
    fix m' assume m': "m' \<in> set ms"
    with Cons.prems(2) have "arcname_parts (fst m') \<noteq> []" "dest_ready fs out m'" by simp_all
    moreover from m' Cons.prems(3) have "no_clash m m'" "no_clash m' m" by simp_all
    ultimately show "arcname_parts (fst m') \<noteq> [] \<and> dest_ready fs1 out m'"
      using dest_ready_step [OF fr at] by simp
  qed
  from Cons.prems(3) have cf: "conflict_free ms" by simp
  from Cons.IH [OF d1 r1 cf] obtain fs' where
    all: "extractall fs1 out (readable ms) = (None, fs')"
    and placed: "\<forall>m' \<in> set ms. fs' (target out m') = Some (extracted m')"
    and fr': "\<forall>q. fs' q = fs1 q \<or> (\<exists>m' \<in> set ms. q = target out m') \<or> fs1 q = None"
    and d': "isdir fs' out"
    and lt: "dest_ready fs1 out later \<and> (\<forall>m \<in> set ms. no_clash m later \<and> no_clash later m)
                  \<longrightarrow> dest_ready fs' out later"
    by blast
  have head: "fs' (target out m) = Some (extracted m)"
  proof (cases "\<exists>m' \<in> set ms. target out m = target out m'")
    case True
    then obtain m' where m': "m' \<in> set ms" "target out m = target out m'" by blast
    then have eq: "arcname_parts (fst m) = arcname_parts (fst m')" by (simp add: target_def)
    from m'(1) Cons.prems(3) have "no_clash m m'" "no_clash m' m" by simp_all
    with eq have "is_dir (fst m)" "is_dir (fst m')" by (simp_all add: no_clash_def)
    then have "extracted m = extracted m'" by (simp add: extracted_def)
    with placed m' show ?thesis by simp
  next
    case False
    from fr' have "fs' (target out m) = fs1 (target out m)
        \<or> (\<exists>m' \<in> set ms. target out m = target out m') \<or> fs1 (target out m) = None"
      by (rule spec)
    with False at show ?thesis by simp
  qed
  have frame: "fs' q = fs q \<or> (\<exists>m' \<in> set (m # ms). q = target out m') \<or> fs q = None" for q
  proof (cases "q = target out m")
    case True
    then show ?thesis by simp
  next
    case False
    from fr [rule_format, OF False] have a: "fs1 q = fs q \<or> fs q = None" by auto
    from fr' have b: "fs' q = fs1 q \<or> (\<exists>m' \<in> set ms. q = target out m') \<or> fs1 q = None"
      by (rule spec)
    show ?thesis
    proof (cases "fs q = None")
      case True
      then show ?thesis by simp
    next
      case nonfree: False
      with a have c: "fs1 q = fs q" by simp
      from b show ?thesis
      proof (elim disjE)
        assume "fs' q = fs1 q"
        with c show ?thesis by simp
      next
        assume "\<exists>m' \<in> set ms. q = target out m'"
        then show ?thesis by auto
      next
        assume "fs1 q = None"
        with c nonfree show ?thesis by simp
      qed
    qed
  qed
  have later: "dest_ready fs' out later"
    if "dest_ready fs out later" "\<forall>x \<in> set (m # ms). no_clash x later \<and> no_clash later x"
  proof -
    from that have "no_clash m later" "no_clash later m" by simp_all
    from dest_ready_step [OF fr at that(1) this] have "dest_ready fs1 out later" .
    with lt that(2) show ?thesis by simp
  qed
  have run: "extractall fs out (readable (m # ms)) = (None, fs')"
    using ex all by (simp add: readable_def)
  have pl: "\<forall>x \<in> set (m # ms). fs' (target out x) = Some (extracted x)"
    using head placed by simp
  have frm: "\<forall>q. fs' q = fs q \<or> (\<exists>m' \<in> set (m # ms). q = target out m') \<or> fs q = None"
    by (intro allI) (rule frame)
  have ltr: "dest_ready fs out later
              \<and> (\<forall>x \<in> set (m # ms). no_clash x later \<and> no_clash later x)
             \<longrightarrow> dest_ready fs' out later"
    using later by blast
  show ?case
    by (intro exI conjI) (rule run, rule pl, rule frm, rule d', rule ltr)
qed



lemma no_clash_names: "fst a = fst a' \<Longrightarrow> fst b = fst b' \<Longrightarrow> no_clash a b = no_clash a' b'"
  by (simp add: no_clash_def)


text \<open>
  C5. For an archive file that decodes to readable members with normal names that do not
  clash, and a destination directory that is ready for them (and does not hold the archive
  file), the extractor returns normally, and afterwards every member is under the
  destination directory at its own relative path (the member's name is that path, joined by
  slashes): a file member as a file with the member's contents, a directory member as a
  directory.
\<close>

theorem extract_preserves_paths:
  assumes "zip_path \<noteq> []"
    and "files w zip_path = Some (File content)"
    and "zip_read e content = Inr (readable ms)"
    and "well_formed ms"
    and "isdir (files w) out_dir"
    and "\<forall>m \<in> set ms. dest_ready (files w) out_dir m"
    and "\<not> prefix out_dir zip_path"
  shows "\<exists>w'. unzip_to_xml_dir e zip_path out_dir w = (Inr (), w')
             \<and> (\<forall>m \<in> set ms.
                   files w' (out_dir @ arcname_parts (fst m))
                     = Some (if is_dir (fst m) then Dir else File (snd m))
                   \<and> fst m = join_path (arcname_parts (fst m))
                               @ (if is_dir (fst m) then ''/'' else []))
             \<and> stdout w' =
                 stdout w @ [''Unzipping '' @ path_str zip_path @ '' to '' @ path_str out_dir
                               @ ''...'',
                             ''Unzip complete.'']"
proof -
  let ?w1 = "print (''Unzipping '' @ path_str zip_path @ '' to '' @ path_str out_dir @ ''...'') w"
  have names: "\<forall>m \<in> set ms. normal_name (fst m)" and cf: "conflict_free ms"
    using assms(4) by (simp_all add: well_formed_def)
  have rd: "\<forall>m \<in> set ms. arcname_parts (fst m) \<noteq> [] \<and> dest_ready (files w) out_dir m"
    using names assms(6) by (simp add: normal_name_def)
  from extractall_ok [OF assms(5) rd cf] obtain fs' where
    run: "extractall (files w) out_dir (readable ms) = (None, fs')"
    and placed: "\<forall>m \<in> set ms. fs' (target out_dir m) = Some (extracted m)"
    by blast
  have u: "unzip_to_xml_dir e zip_path out_dir w =
             (Inr (), print ''Unzip complete.'' (?w1\<lparr>files := fs'\<rparr>))"
    using assms(1,2,3) run by (simp add: unzip_to_xml_dir_def Let_def print_def)
  have a: "\<forall>m \<in> set ms.
             files (print ''Unzip complete.'' (?w1\<lparr>files := fs'\<rparr>))
                 (out_dir @ arcname_parts (fst m))
               = Some (if is_dir (fst m) then Dir else File (snd m))
             \<and> fst m = join_path (arcname_parts (fst m))
                         @ (if is_dir (fst m) then ''/'' else [])"
  proof
    fix m assume m: "m \<in> set ms"
    with placed have "fs' (target out_dir m) = Some (extracted m)" by simp
    moreover from m names have "normal_name (fst m)" by simp
    ultimately show "files (print ''Unzip complete.'' (?w1\<lparr>files := fs'\<rparr>))
                 (out_dir @ arcname_parts (fst m))
               = Some (if is_dir (fst m) then Dir else File (snd m))
             \<and> fst m = join_path (arcname_parts (fst m))
                         @ (if is_dir (fst m) then ''/'' else [])"
      by (simp add: print_def target_def extracted_def normal_name_def)
  qed
  have b: "stdout (print ''Unzip complete.'' (?w1\<lparr>files := fs'\<rparr>)) =
             stdout w @ [''Unzipping '' @ path_str zip_path @ '' to '' @ path_str out_dir
                           @ ''...'',
                         ''Unzip complete.'']"
    by (simp add: print_def)
  show ?thesis
    by (intro exI conjI) (rule u, rule a, rule b)
qed

text \<open>
  The archive with \<^verbatim>\<open>a.txt\<close> and \<^verbatim>\<open>sub/b.txt\<close>: both files are below the destination
  with their contents.
\<close>

theorem extract_preserves_paths_witness:
  "fst (unzip_to_xml_dir (sample_run_env (Inr (readable sample_archive)))
          [''repo'', ''data'', ''raw'', ''usc.zip''] [''repo'', ''data'', ''xml'']
          (sample_world sample_zip_fs)) = Inr ()
   \<and> files (snd (unzip_to_xml_dir (sample_run_env (Inr (readable sample_archive)))
          [''repo'', ''data'', ''raw'', ''usc.zip''] [''repo'', ''data'', ''xml'']
          (sample_world sample_zip_fs))) [''repo'', ''data'', ''xml'', ''a.txt'']
       = Some (File [1, 2])
   \<and> files (snd (unzip_to_xml_dir (sample_run_env (Inr (readable sample_archive)))
          [''repo'', ''data'', ''raw'', ''usc.zip''] [''repo'', ''data'', ''xml'']
          (sample_world sample_zip_fs))) [''repo'', ''data'', ''xml'', ''sub'', ''b.txt'']
       = Some (File [3])"
proof -
  have wf: "well_formed sample_archive"
    by (simp add: well_formed_def sample_archive_def normal_name_def arcname_parts_def
          is_dir_def no_clash_def)
  have rd: "\<forall>m \<in> set sample_archive.
              dest_ready (files (sample_world sample_zip_fs)) [''repo'', ''data'', ''xml''] m"
    by (simp add: sample_archive_def dest_ready_def arcname_parts_def is_dir_def target_def
          free_or_dir_def sample_world_def sample_zip_fs_def sample_dirs_def)
  from extract_preserves_paths [where e = "sample_run_env (Inr (readable sample_archive))"
      and zip_path = "[''repo'', ''data'', ''raw'', ''usc.zip'']"
      and out_dir = "[''repo'', ''data'', ''xml'']"
      and w = "sample_world sample_zip_fs" and content = "[80, 75]"
      and ms = sample_archive, OF _ _ _ wf _ rd]
  obtain w' where
    "unzip_to_xml_dir (sample_run_env (Inr (readable sample_archive)))
          [''repo'', ''data'', ''raw'', ''usc.zip''] [''repo'', ''data'', ''xml'']
          (sample_world sample_zip_fs) = (Inr (), w')"
    "\<forall>m \<in> set sample_archive.
        files w' ([''repo'', ''data'', ''xml''] @ arcname_parts (fst m))
          = Some (if is_dir (fst m) then Dir else File (snd m))"
    by (auto simp: sample_run_env_def sample_env_def sample_world_def sample_zip_fs_def
          sample_dirs_def isdir_def)
  then show ?thesis
    by (simp add: sample_archive_def arcname_parts_def is_dir_def)
qed








end
